theory Spec2Isabelle
  imports Main "HOL-Library.Char_ord" "HOL-Library.List_Lexorder" "HOL-Library.Multiset"
begin

text \<open>
  The module \<^verbatim>\<open>src/index.js\<close> migrates the documents of a document store: every document
  carries a version marker, the steps loaded from the migration files are applied to a
  document one after the other until its version reaches the target, and a batch run
  pages through the documents below the target, migrates and writes back each of them,
  and counts what it does. This theory embeds the functions of the module
  (\<^verbatim>\<open>migrateDocument\<close>, \<^verbatim>\<open>treatDocuments\<close>, \<^verbatim>\<open>executeMigrations\<close>, \<^verbatim>\<open>doMigrations\<close>,
  \<^verbatim>\<open>loadFiles\<close>) and proves properties of them.
\<close>

section \<open>Data model\<close>

text \<open>
  A document is a mapping of fields with one reserved field, the version marker
  \<^verbatim>\<open>migration_version\<close> (\<^verbatim>\<open>migrations.version_field\<close>). The marker is an integer or is
  absent (\<open>None\<close>, JavaScript's \<^verbatim>\<open>undefined\<close>). \<open>doc_key\<close> is the identity under which the
  store keeps the document; \<open>content\<close> stands for all the other fields.
\<close>

record 'c doc =
  doc_key :: nat
  migration_version :: "int option"
  content :: 'c

text \<open>
  What a step's \<^verbatim>\<open>up\<close> hands to its continuation \<^verbatim>\<open>function(new_doc)\<close>: nothing at all
  (\<^verbatim>\<open>undefined\<close>), \<^verbatim>\<open>null\<close>, or a replacement document. A transform is taken to call its
  continuation exactly once and to act on the document only through that argument.
\<close>

datatype 'c reply = Undefined | Null | Replacement "'c doc"

text \<open>
  A step descriptor \<^verbatim>\<open>{id, up}\<close>. \<open>up = None\<close> is a descriptor whose \<^verbatim>\<open>up\<close> is not a
  function (\<^verbatim>\<open>typeof migration.up !== 'function'\<close>).
\<close>

record 'c step =
  step_id :: int
  up :: "('c doc \<Rightarrow> 'c reply) option"

text \<open>Exceptions thrown by the JavaScript runtime.\<close>

datatype exn = TypeError

section \<open>JavaScript operators used by the source\<close>

text \<open>
  \<^verbatim>\<open>doc[migrations.version_field] || 0\<close>: an absent marker reads as 0 (and so does the
  falsy marker 0).
\<close>

definition version_of :: "'c doc \<Rightarrow> int" where
  "version_of d = (case migration_version d of None \<Rightarrow> 0 | Some v \<Rightarrow> if v = 0 then 0 else v)"

text \<open>
  \<^verbatim>\<open>migrations.steps[version]\<close>: array indexing by position; outside the array the
  result is \<^verbatim>\<open>undefined\<close> (\<open>None\<close>).
\<close>

definition step_at :: "'c step list \<Rightarrow> int \<Rightarrow> 'c step option" where
  "step_at steps version =
     (if 0 \<le> version \<and> version < int (length steps) then Some (steps ! nat version) else None)"

text \<open>
  The accumulator \<^verbatim>\<open>modified\<close> is \<^verbatim>\<open>undefined\<close> (\<open>None\<close>) on the first call, which passes
  three arguments, and a boolean afterwards. \<open>wasModified\<close> is its truth value, the way
  \<^verbatim>\<open>modified ? 1 : 0\<close> reads it.
\<close>

definition wasModified :: "bool option \<Rightarrow> bool" where
  "wasModified modified = (case modified of None \<Rightarrow> False | Some b \<Rightarrow> b)"

text \<open>\<^verbatim>\<open>modified || new_doc !== null\<close>\<close>

definition or_not_null :: "bool option \<Rightarrow> 'c reply \<Rightarrow> bool option" where
  "or_not_null modified new_doc =
     (if wasModified modified then modified else Some (new_doc \<noteq> Null))"

text \<open>\<^verbatim>\<open>new_doc || doc\<close>\<close>

definition or_doc :: "'c reply \<Rightarrow> 'c doc \<Rightarrow> 'c doc" where
  "or_doc new_doc d = (case new_doc of Replacement d' \<Rightarrow> d' | _ \<Rightarrow> d)"

section \<open>migrateDocument\<close>

text \<open>
  The recursion through the continuation of \<^verbatim>\<open>up\<close> may go on for ever (a step whose id
  does not exceed its own position), so the function is partial: \<open>None\<close> is a call whose
  callback is never invoked. \<open>Some (Inl TypeError)\<close> is the exception of reading
  \<^verbatim>\<open>migration.up\<close> when \<^verbatim>\<open>migration\<close> is \<^verbatim>\<open>undefined\<close>; \<open>Some (Inr (doc, modified))\<close> are
  the arguments of \<^verbatim>\<open>callback(doc, modified)\<close>.
\<close>

partial_function (option) migrateDocument ::
  "'c step list \<Rightarrow> 'c doc \<Rightarrow> int \<Rightarrow> bool option \<Rightarrow> (exn + 'c doc \<times> bool option) option"
where
  "migrateDocument steps d up_to modified =
     (if version_of d < up_to then
        (case step_at steps (version_of d) of
           None \<Rightarrow> Some (Inl TypeError)
         | Some migration \<Rightarrow>
             (case up migration of
                Some f \<Rightarrow>
                  migrateDocument steps
                    ((or_doc (f d) d)\<lparr>migration_version := Some (step_id migration)\<rparr>)
                    up_to
                    (or_not_null modified (f d))
              | None \<Rightarrow> Some (Inr (d, modified))))
      else Some (Inr (d, modified)))"

declare migrateDocument.simps [code]

text \<open>
  The chain of calls that \<open>migrateDocument\<close> makes, unrolled: \<open>chain n\<close> takes the document
  and the flag of a call, with the values that the transforms have handed to their
  continuations so far (most recent first), to those of the call reached after \<open>n\<close>
  further applications of a step, or of the call at which the chain stops before that.
  It follows the branches of \<open>migrateDocument\<close> and only records; it serves to speak
  about the calls inside a chain, whether or not the chain ever ends.
\<close>

fun chain ::
  "nat \<Rightarrow> 'c step list \<Rightarrow> int \<Rightarrow> 'c doc \<times> bool option \<times> 'c reply list \<Rightarrow>
   'c doc \<times> bool option \<times> 'c reply list"
where
  "chain 0 steps up_to c = c"
| "chain (Suc n) steps up_to (d, modified, ys) =
     (if version_of d < up_to then
        (case step_at steps (version_of d) of
           None \<Rightarrow> (d, modified, ys)
         | Some migration \<Rightarrow>
             (case up migration of
                Some f \<Rightarrow>
                  chain n steps up_to
                    ((or_doc (f d) d)\<lparr>migration_version := Some (step_id migration)\<rparr>,
                     or_not_null modified (f d),
                     f d # ys)
              | None \<Rightarrow> (d, modified, ys)))
      else (d, modified, ys))"

section \<open>State of one instance of the module\<close>

text \<open>
  The object \<^verbatim>\<open>migrations\<close>: \<^verbatim>\<open>last\<close> (\<^verbatim>\<open>null\<close> is \<open>None\<close>), \<^verbatim>\<open>loaded\<close> and \<^verbatim>\<open>steps\<close>. The field
  \<^verbatim>\<open>last\<close> is \<open>last_version\<close> here, and the counters \<^verbatim>\<open>done\<close>, \<^verbatim>\<open>total\<close> and \<^verbatim>\<open>written\<close> of
  \<^verbatim>\<open>progress\<close> below are \<open>done_n\<close>, \<open>total_n\<close> and \<open>written_n\<close>: the plain names are taken.
\<close>

record 'c migrations =
  last_version :: "int option"
  loaded :: bool
  steps :: "'c step list"

text \<open>The object \<^verbatim>\<open>progress\<close>: \<^verbatim>\<open>done\<close>, \<^verbatim>\<open>total\<close>, \<^verbatim>\<open>written\<close> and \<^verbatim>\<open>intervalId\<close>.\<close>

record progress =
  done_n :: nat
  total_n :: nat
  written_n :: nat
  intervalId :: "nat option"

text \<open>
  Modelled from the spec: the document store, an external collaborator reached through
  \<^verbatim>\<open>db.view\<close> and \<^verbatim>\<open>db.insert\<close>. The spec gives its contract: the view returns the documents
  whose version marker is below the bound, in the order of their keys (the version; the
  model leaves documents of one version in the order of the store) and at most \<^verbatim>\<open>limit\<close>
  of them; insert creates or overwrites the document, or fails and leaves the store as
  it is. \<open>view_errors\<close> scripts the failures of the coming view queries: its head is the
  error of the next query, \<open>None\<close> or an exhausted list is a query that succeeds.
  \<open>insert_errors\<close> does the same for the coming inserts.
\<close>

record 'c store =
  docs :: "'c doc list"
  view_errors :: "string option list"
  insert_errors :: "string option list"

definition view_rows :: "'c doc list \<Rightarrow> int \<Rightarrow> nat option \<Rightarrow> 'c doc list" where
  "view_rows ds endkey limit =
     (let rows = sort_key version_of (filter (\<lambda>d. version_of d \<le> endkey) ds)
      in case limit of None \<Rightarrow> rows | Some n \<Rightarrow> take n rows)"

definition db_view ::
  "'c store \<Rightarrow> int \<Rightarrow> nat option \<Rightarrow> (string + 'c doc list) \<times> 'c store" where
  "db_view s endkey limit =
     (case view_errors s of
        [] \<Rightarrow> (Inr (view_rows (docs s) endkey limit), s)
      | None # rest \<Rightarrow> (Inr (view_rows (docs s) endkey limit), s\<lparr>view_errors := rest\<rparr>)
      | Some err # rest \<Rightarrow> (Inl err, s\<lparr>view_errors := rest\<rparr>))"

fun upsert :: "'c doc \<Rightarrow> 'c doc list \<Rightarrow> 'c doc list" where
  "upsert d [] = [d]"
| "upsert d (x # xs) = (if doc_key x = doc_key d then d # xs else x # upsert d xs)"

text \<open>
  The store after \<^verbatim>\<open>db.insert(doc, callback)\<close>. The callback in \<^verbatim>\<open>treatDocuments\<close> takes no
  argument, so the error of a failed insert reaches nobody and is not returned here.
\<close>

definition db_insert :: "'c store \<Rightarrow> 'c doc \<Rightarrow> 'c store" where
  "db_insert s d =
     (case insert_errors s of
        [] \<Rightarrow> s\<lparr>docs := upsert d (docs s)\<rparr>
      | None # rest \<Rightarrow> s\<lparr>docs := upsert d (docs s), insert_errors := rest\<rparr>
      | Some err # rest \<Rightarrow> s\<lparr>insert_errors := rest\<rparr>)"

text \<open>
  The lines \<^verbatim>\<open>logger.info\<close> writes from \<^verbatim>\<open>executeMigrations\<close>: the target of the run, and the
  summary with \<^verbatim>\<open>progress.done\<close> and \<^verbatim>\<open>progress.written\<close>.
\<close>

datatype log_line = Executing int | Finished nat nat

text \<open>
  The state an instance works on. \<open>timers\<close> are the interval timers that run. \<open>loads\<close>
  counts the runs of the step loader and \<open>observed\<close> lists, most recent first, the states
  of \<^verbatim>\<open>progress\<close> that the progress timer can see (JavaScript runs one callback at a time,
  so a tick sees the counters as some callback left them); neither is read by the code.
\<close>

record 'c world =
  migrations :: "'c migrations"
  progress :: progress
  db :: "'c store"
  timers :: "nat list"
  next_timer :: nat
  logged :: "log_line list"
  loads :: nat
  observed :: "progress list"

text \<open>
  What the instance gets from outside: the autoloader, which receives the object
  \<^verbatim>\<open>migrations\<close> through \<^verbatim>\<open>imports\<close> and fills it, and the order in which the document
  pipelines of one page complete (\<^verbatim>\<open>async.eachLimit\<close> gives no order).
\<close>

record 'c env =
  loader_migrations :: "'c migrations \<Rightarrow> 'c migrations"
  completion_order :: "'c doc list \<Rightarrow> 'c doc list"

text \<open>The argument \<^verbatim>\<open>new Error(message)\<close> of a callback.\<close>

datatype js_error = Error string

text \<open>
  How an asynchronous call ends: its callback is invoked with an error or with nothing;
  an exception escapes; a pipeline never calls back, so that the page never drains; or
  the bound on the number of page queries is reached with the run still going.
\<close>

datatype 'c outcome =
    Called "js_error option" "'c world"
  | Thrown exn "'c world"
  | Hung "'c world"
  | Unfinished "'c world"

fun world_of :: "'c outcome \<Rightarrow> 'c world" where
  "world_of (Called err w) = w"
| "world_of (Thrown e w) = w"
| "world_of (Hung w) = w"
| "world_of (Unfinished w) = w"

text \<open>\<^verbatim>\<open>up_to || null\<close> and \<^verbatim>\<open>id || null\<close>: a number that is 0 is falsy.\<close>

definition or_null :: "int option \<Rightarrow> int option" where
  "or_null x = (case x of None \<Rightarrow> None | Some n \<Rightarrow> if n = 0 then None else Some n)"

text \<open>\<^verbatim>\<open>up_to || migrations.last\<close>\<close>

definition or_last :: "int option \<Rightarrow> int \<Rightarrow> int" where
  "or_last x l = (case x of None \<Rightarrow> l | Some n \<Rightarrow> if n = 0 then l else n)"

definition setInterval :: "'c world \<Rightarrow> 'c world" where
  "setInterval w =
     (let t = next_timer w;
          p = (progress w)\<lparr>intervalId := Some t\<rparr>
      in w\<lparr>timers := t # timers w, next_timer := t + 1, progress := p,
           observed := p # observed w\<rparr>)"

definition clearInterval :: "nat option \<Rightarrow> 'c world \<Rightarrow> 'c world" where
  "clearInterval i w = (case i of None \<Rightarrow> w | Some t \<Rightarrow> w\<lparr>timers := removeAll t (timers w)\<rparr>)"

section \<open>treatDocuments\<close>

text \<open>
  The callback of \<^verbatim>\<open>db.insert\<close>: \<^verbatim>\<open>progress.done += 1; progress.written += modified ? 1 : 0\<close>.
  It runs whether the insert has persisted the document or failed.
\<close>

definition rowDone :: "bool option \<Rightarrow> 'c world \<Rightarrow> 'c world" where
  "rowDone modified w =
     (let p = (progress w)\<lparr>done_n := done_n (progress w) + 1,
                            written_n := written_n (progress w) + (if wasModified modified then 1 else 0)\<rparr>
      in w\<lparr>progress := p, observed := p # observed w\<rparr>)"

text \<open>
  The iterator of \<^verbatim>\<open>async.eachLimit\<close> on one row. The document that \<open>migrateDocument\<close>
  hands back is always an object here, so the branch \<^verbatim>\<open>typeof doc === 'object'\<close> is the one
  taken. \<open>None\<close>: the pipeline never calls \<^verbatim>\<open>next\<close>.
\<close>

definition treatRow :: "int \<Rightarrow> 'c doc \<Rightarrow> 'c world \<Rightarrow> (exn \<times> 'c world + 'c world) option" where
  "treatRow up_to row w =
     (case migrateDocument (steps (migrations w)) row up_to None of
        None \<Rightarrow> None
      | Some (Inl e) \<Rightarrow> Some (Inl (e, w))
      | Some (Inr (d, modified)) \<Rightarrow> Some (Inr (rowDone modified (w\<lparr>db := db_insert (db w) d\<rparr>))))"

text \<open>
  The pipelines of one page, one after the other in the order of their completion (at
  most 32 are in flight at a time in the source). The flag tells whether every pipeline
  called \<^verbatim>\<open>next\<close>; the pipelines after one that never does still complete. An exception
  ends the run.
\<close>

fun treatRows :: "int \<Rightarrow> 'c doc list \<Rightarrow> 'c world \<Rightarrow> exn \<times> 'c world + bool \<times> 'c world" where
  "treatRows up_to [] w = Inr (True, w)"
| "treatRows up_to (row # rows) w =
     (case treatRow up_to row w of
        None \<Rightarrow> (case treatRows up_to rows w of
                   Inl ew \<Rightarrow> Inl ew
                 | Inr (drained, w') \<Rightarrow> Inr (False, w'))
      | Some (Inl ew) \<Rightarrow> Inl ew
      | Some (Inr w') \<Rightarrow> treatRows up_to rows w')"

text \<open>
  The paging loop. The first argument bounds the number of page queries: the loop
  itself has no bound and goes on while the view returns rows.
\<close>

fun treatDocuments :: "'c env \<Rightarrow> nat \<Rightarrow> int \<Rightarrow> nat \<Rightarrow> 'c world \<Rightarrow> 'c outcome" where
  "treatDocuments env 0 up_to limit w = Unfinished w"
| "treatDocuments env (Suc n) up_to limit w =
     (case db_view (db w) (up_to - 1) (Some limit) of
        (Inl err, s) \<Rightarrow> Called (Some (Error (''Unable to retrive data: '' @ err))) (w\<lparr>db := s\<rparr>)
      | (Inr rows, s) \<Rightarrow>
          if length rows = 0 then Called None (w\<lparr>db := s\<rparr>)
          else (case treatRows up_to (completion_order env rows) (w\<lparr>db := s\<rparr>) of
                  Inl (e, w') \<Rightarrow> Thrown e w'
                | Inr (drained, w') \<Rightarrow>
                    if drained then treatDocuments env n up_to limit w' else Hung w'))"

section \<open>executeMigrations, loadFiles, doMigrations\<close>

definition executeMigrations :: "'c env \<Rightarrow> nat \<Rightarrow> int option \<Rightarrow> 'c world \<Rightarrow> 'c outcome" where
  "executeMigrations env pages up_to w =
     (case last_version (migrations w) of
        None \<Rightarrow> Called (Some (Error ''No migrations found'')) w
      | Some l \<Rightarrow>
          (let up_to' = or_last up_to l;
               w1 = w\<lparr>logged := Executing up_to' # logged w\<rparr>
           in case db_view (db w1) (up_to' - 1) None of
                (Inl err, s) \<Rightarrow>
                  Called (Some (Error (''Unable to retrive data: '' @ err))) (w1\<lparr>db := s\<rparr>)
              | (Inr rows, s) \<Rightarrow>
                  (let w2 = w1\<lparr>db := s, progress := (progress w1)\<lparr>total_n := length rows\<rparr>\<rparr>;
                       w3 = setInterval w2
                   in case treatDocuments env pages up_to' 512 w3 of
                        Called err w4 \<Rightarrow>
                          Called None
                            (clearInterval (intervalId (progress w4))
                               (w4\<lparr>logged := Finished (done_n (progress w4)) (written_n (progress w4))
                                              # logged w4\<rparr>))
                      | other \<Rightarrow> other)))"

text \<open>
  \<^verbatim>\<open>migrations.steps.sort()\<close> has no comparison function, so the elements are compared
  as strings, and a step descriptor, a plain object, converts to \<^verbatim>\<open>[object Object]\<close>. The
  sort is stable (ECMAScript 2019; engines before it leave the order of equal elements
  of a long array open).
\<close>

definition toString_step :: "'c step \<Rightarrow> string" where
  "toString_step s = ''[object Object]''"

definition js_sort :: "'c step list \<Rightarrow> 'c step list" where
  "js_sort xs = sort_key toString_step xs"

text \<open>
  \<^verbatim>\<open>migrations.steps[migrations.steps.length-1].id || null\<close> throws on an empty array.
\<close>

definition loadFiles :: "'c env \<Rightarrow> 'c world \<Rightarrow> exn \<times> 'c world + 'c world" where
  "loadFiles env w =
     (let m = loader_migrations env (migrations w);
          m1 = m\<lparr>steps := js_sort (steps m)\<rparr>;
          w1 = w\<lparr>migrations := m1, loads := loads w + 1\<rparr>
      in case step_at (steps m1) (int (length (steps m1)) - 1) of
           None \<Rightarrow> Inl (TypeError, w1)
         | Some s \<Rightarrow> Inr (w1\<lparr>migrations := m1\<lparr>last_version := or_null (Some (step_id s))\<rparr>\<rparr>))"

definition doMigrations :: "'c env \<Rightarrow> nat \<Rightarrow> int option \<Rightarrow> 'c world \<Rightarrow> 'c outcome" where
  "doMigrations env pages up_to w =
     (let up_to' = or_null up_to
      in if \<not> loaded (migrations w) then
           (case loadFiles env w of
              Inl (e, w') \<Rightarrow> Thrown e w'
            | Inr w' \<Rightarrow> executeMigrations env pages up_to' w')
         else executeMigrations env pages up_to' w)"

text \<open>
  The state of a fresh instance, as the initialisers of \<^verbatim>\<open>migrations\<close> and \<^verbatim>\<open>progress\<close>
  give it, over a given store.
\<close>

definition initial :: "'c store \<Rightarrow> 'c world" where
  "initial s =
     \<lparr>migrations = \<lparr>last_version = None, loaded = False, steps = []\<rparr>,
      progress = \<lparr>done_n = 0, total_n = 0, written_n = 0, intervalId = None\<rparr>,
      db = s, timers = [], next_timer = 0, logged = [], loads = 0, observed = []\<rparr>"

section \<open>Candidate documents\<close>



section \<open>Invariants of the counters\<close>



text \<open>Two states with the same \<^verbatim>\<open>migrations\<close>, loader count and log.\<close>

definition same_registry :: "'c world \<Rightarrow> 'c world \<Rightarrow> bool" where
  "same_registry w' w = (migrations w' = migrations w \<and> loads w' = loads w \<and> logged w' = logged w)"

section \<open>Scenarios\<close>

text \<open>
  Concrete inputs on which the theorems below are evaluated. The other fields of a
  document are a list of named integers.
\<close>

type_synonym fields = "(string \<times> int) list"

definition add_x :: "fields doc \<Rightarrow> fields reply" where
  "add_x d = Replacement (d\<lparr>content := (''x'', 1) # content d\<rparr>)"

text \<open>Scenario A of the spec: step 0 adds the field x, step 1 yields null.\<close>

definition stepsA :: "fields step list" where
  "stepsA = [\<lparr>step_id = 1, up = Some add_x\<rparr>, \<lparr>step_id = 2, up = Some (\<lambda>d. Null)\<rparr>]"

definition docA :: "fields doc" where
  "docA = \<lparr>doc_key = 1, migration_version = Some 0, content = []\<rparr>"

definition docA1 :: "fields doc" where
  "docA1 = \<lparr>doc_key = 1, migration_version = Some 1, content = [(''x'', 1)]\<rparr>"

definition docA2 :: "fields doc" where
  "docA2 = \<lparr>doc_key = 1, migration_version = Some 2, content = [(''x'', 1)]\<rparr>"

text \<open>A single step whose transform calls its continuation with no argument.\<close>

definition stepsU :: "fields step list" where
  "stepsU = [\<lparr>step_id = 1, up = Some (\<lambda>d. Undefined)\<rparr>]"

definition docU :: "fields doc" where
  "docU = \<lparr>doc_key = 7, migration_version = None, content = [(''y'', 3)]\<rparr>"

text \<open>Scenario C of the spec: a document at version 5, target 10, one step loaded.\<close>

definition doc5 :: "fields doc" where
  "doc5 = \<lparr>doc_key = 2, migration_version = Some 5, content = []\<rparr>"

text \<open>A store without documents and without failures.\<close>

definition emptyStore :: "fields store" where
  "emptyStore = \<lparr>docs = [], view_errors = [], insert_errors = []\<rparr>"

text \<open>An autoloader whose step files push the given descriptors onto \<^verbatim>\<open>migrations.steps\<close>.\<close>

definition pushing :: "fields step list \<Rightarrow> fields env" where
  "pushing files =
     \<lparr>loader_migrations = (\<lambda>m. m\<lparr>steps := steps m @ files\<rparr>), completion_order = (\<lambda>rows. rows)\<rparr>"

text \<open>Two step files that reach the array with the higher id first.\<close>

definition steps21 :: "fields step list" where
  "steps21 = [\<lparr>step_id = 2, up = Some (\<lambda>d. Null)\<rparr>, \<lparr>step_id = 1, up = Some add_x\<rparr>]"

text \<open>Scenario D of the spec: the highest step id is 7.\<close>

definition steps7 :: "fields step list" where
  "steps7 = [\<lparr>step_id = 7, up = Some (\<lambda>d. Null)\<rparr>]"

text \<open>
  Scenario E of the spec: the count query succeeds and the query of the first page fails.
\<close>

definition storeE :: "fields store" where
  "storeE = \<lparr>docs = [docA], view_errors = [None, Some ''timeout''], insert_errors = []\<rparr>"

text \<open>
  A single step, at position 0, without an \<^verbatim>\<open>up\<close> function, a store with one document
  at version 0, and an instance that has loaded that step.
\<close>

definition stepsS :: "fields step list" where
  "stepsS = [\<lparr>step_id = 1, up = None\<rparr>]"

definition storeS :: "fields store" where
  "storeS = \<lparr>docs = [docA], view_errors = [], insert_errors = []\<rparr>"

definition worldS :: "fields world" where
  "worldS =
     (initial storeS)\<lparr>migrations := \<lparr>last_version = Some 1, loaded = False, steps = stepsS\<rparr>\<rparr>"

text \<open>
  An instance that has loaded the steps of scenario A, over a store of three documents
  of which two are below version 2, and one that has loaded \<open>stepsU\<close>.
\<close>

definition docB :: "fields doc" where
  "docB = \<lparr>doc_key = 3, migration_version = Some 1, content = []\<rparr>"

definition worldA :: "fields world" where
  "worldA =
     (initial \<lparr>docs = [docA, doc5, docB], view_errors = [], insert_errors = []\<rparr>)
       \<lparr>migrations := \<lparr>last_version = Some 2, loaded = False, steps = stepsA\<rparr>\<rparr>"

text \<open>The same instance over a store whose next two inserts fail.\<close>

definition worldF :: "fields world" where
  "worldF =
     (initial \<lparr>docs = [docA, doc5, docB], view_errors = [],
               insert_errors = [Some ''conflict'', Some ''conflict'']\<rparr>)
       \<lparr>migrations := \<lparr>last_version = Some 2, loaded = False, steps = stepsA\<rparr>\<rparr>"

text \<open>
  A single step whose id is its own position and whose transform calls its continuation
  with no argument: its chain on a document at version 0 never ends.
\<close>

definition stepsL :: "fields step list" where
  "stepsL = [\<lparr>step_id = 0, up = Some (\<lambda>d. Undefined)\<rparr>]"

definition worldU :: "fields world" where
  "worldU =
     (initial \<lparr>docs = [docU], view_errors = [], insert_errors = []\<rparr>)
       \<lparr>migrations := \<lparr>last_version = Some 1, loaded = False, steps = stepsU\<rparr>\<rparr>"

section \<open>Evaluation\<close>

text \<open>The equations that evaluate the operators and unfold the scenarios.\<close>

lemmas js_ops = version_of_def step_at_def or_doc_def or_not_null_def wasModified_def

lemmas scenario_defs = stepsA_def docA_def docA1_def docA2_def add_x_def stepsU_def docU_def doc5_def
  docB_def

text \<open>
  Sorting by a key that is the same for every element changes nothing, and that is what
  \<^verbatim>\<open>migrations.steps.sort()\<close> does to an array of step descriptors.
\<close>

lemma sort_key_const: "(\<And>x. x \<in> set xs \<Longrightarrow> k x = c) \<Longrightarrow> sort_key k xs = xs"
proof (induction xs)
  case Nil
  then show ?case by simp
next
  case (Cons x xs)
  then have "sort_key k xs = xs" by simp
  moreover have "insort_key k x xs = x # xs"
    using Cons.prems by (cases xs) auto
  ultimately show ?case by simp
qed

lemma js_sort_keeps_order: "js_sort xs = xs"
  unfolding js_sort_def
  by (rule sort_key_const [where c = "''[object Object]''"]) (simp add: toString_step_def)

lemmas world_defs = initial_def emptyStore_def pushing_def steps21_def steps7_def storeE_def
  stepsS_def storeS_def worldS_def worldA_def worldF_def stepsL_def worldU_def

lemmas run_defs = doMigrations_def loadFiles_def executeMigrations_def db_view_def view_rows_def
  db_insert_def treatRow_def rowDone_def setInterval_def clearInterval_def or_null_def or_last_def
  js_sort_keeps_order Let_def

section \<open>The chain of one document\<close>

lemma migrate_above: "up_to \<le> version_of d \<Longrightarrow> migrateDocument sts d up_to m = Some (Inr (d, m))"
  by (subst migrateDocument.simps) simp

lemma migrate_no_up:
  "step_at sts (version_of d) = Some s \<Longrightarrow> up s = None \<Longrightarrow>
   migrateDocument sts d up_to m = Some (Inr (d, m))"
  by (subst migrateDocument.simps) simp

lemma migrate_no_step_throws:
  "version_of d < up_to \<Longrightarrow> step_at sts (version_of d) = None \<Longrightarrow>
   migrateDocument sts d up_to m = Some (Inl TypeError)"
  by (subst migrateDocument.simps) simp

lemma migrate_apply:
  "version_of d < up_to \<Longrightarrow> step_at sts (version_of d) = Some s \<Longrightarrow> up s = Some f \<Longrightarrow>
   migrateDocument sts d up_to m =
   migrateDocument sts ((or_doc (f d) d)\<lparr>migration_version := Some (step_id s)\<rparr>) up_to
     (or_not_null m (f d))"
  by (subst migrateDocument.simps) simp

lemma wasModified_or_not_null: "wasModified (or_not_null m y) = (wasModified m \<or> y \<noteq> Null)"
  by (cases m) (auto simp: or_not_null_def wasModified_def)

text \<open>
  The call that invokes the callback is one whose guard fails: the version has reached
  the target, or the step found at the version has no \<^verbatim>\<open>up\<close> function.
\<close>

lemma migrate_result_terminal:
  assumes run: "migrateDocument sts d up_to m = Some r"
  shows "\<forall>R m'. r = Inr (R, m') \<longrightarrow>
           up_to \<le> version_of R \<or> (\<exists>s. step_at sts (version_of R) = Some s \<and> up s = None)"
proof (rule migrateDocument.raw_induct
    [where P = "\<lambda>sts d up_to m r. \<forall>R m'. r = Inr (R, m') \<longrightarrow>
           up_to \<le> version_of R \<or> (\<exists>s. step_at sts (version_of R) = Some s \<and> up s = None)",
     OF _ run])
  fix g :: "'a step list \<Rightarrow> 'a doc \<Rightarrow> int \<Rightarrow> bool option \<Rightarrow> (exn + 'a doc \<times> bool option) option"
  fix sts d up_to m r
  assume IH: "\<And>sts d up_to m y. g sts d up_to m = Some y \<Longrightarrow>
                \<forall>R m'. y = Inr (R, m') \<longrightarrow>
           up_to \<le> version_of R \<or> (\<exists>s. step_at sts (version_of R) = Some s \<and> up s = None)"
    and body: "(if version_of d < up_to
      then case step_at sts (version_of d) of None \<Rightarrow> Some (Inl TypeError)
           | Some migration \<Rightarrow>
               (case up migration of None \<Rightarrow> Some (Inr (d, m))
               | Some f \<Rightarrow>
                   g sts
                    ((or_doc (f d) d)\<lparr>migration_version := Some (step_id migration)\<rparr>)
                    up_to (or_not_null m (f d)))
      else Some (Inr (d, m))) = Some r"
  show "\<forall>R m'. r = Inr (R, m') \<longrightarrow>
           up_to \<le> version_of R \<or> (\<exists>s. step_at sts (version_of R) = Some s \<and> up s = None)"
    using body IH
    by (auto split: if_splits option.splits)
qed

text \<open>
  The call reached after \<open>n\<close> steps decides the outcome of the call it comes from.
\<close>

lemma chain_link:
  "migrateDocument sts d up_to m =
     (case chain n sts up_to (d, m, ys) of (d', m', ys') \<Rightarrow> migrateDocument sts d' up_to m')"
proof (induction n arbitrary: d m ys)
  case 0
  then show ?case by simp
next
  case (Suc n)
  show ?case
  proof (cases "version_of d < up_to")
    case False
    then show ?thesis by simp
  next
    case lt: True
    show ?thesis
    proof (cases "step_at sts (version_of d)")
      case None
      with lt show ?thesis by simp
    next
      case at: (Some s)
      show ?thesis
      proof (cases "up s")
        case None
        with lt at show ?thesis by simp
      next
        case (Some f)
        with lt at Suc.IH [where d = "(or_doc (f d) d)\<lparr>migration_version := Some (step_id s)\<rparr>"
            and m = "or_not_null m (f d)" and ys = "f d # ys"]
        show ?thesis by (simp add: migrate_apply)
      qed
    qed
  qed
qed

text \<open>
  The flag of a call inside the chain reads true exactly when the flag at the start did
  or one of the replies since then is not null; a chain without a replacement keeps key
  and content of the document.
\<close>

lemma chain_flag:
  "case chain n sts up_to (d, m, ys) of (d', m', ys') \<Rightarrow>
     (\<exists>zs. ys' = zs @ ys \<and>
        (wasModified m' \<longleftrightarrow> wasModified m \<or> (\<exists>y\<in>set zs. y \<noteq> Null)) \<and>
        ((\<forall>y\<in>set zs. y = Null \<or> y = Undefined) \<longrightarrow>
           content d' = content d \<and> doc_key d' = doc_key d))"
proof (induction n arbitrary: d m ys)
  case 0
  then show ?case by simp
next
  case (Suc n)
  show ?case
  proof (cases "version_of d < up_to")
    case False
    then show ?thesis by simp
  next
    case lt: True
    show ?thesis
    proof (cases "step_at sts (version_of d)")
      case None
      with lt show ?thesis by simp
    next
      case at: (Some s)
      show ?thesis
      proof (cases "up s")
        case None
        with lt at show ?thesis by simp
      next
        case (Some f)
        let ?d = "(or_doc (f d) d)\<lparr>migration_version := Some (step_id s)\<rparr>"
        obtain d' m' ys' where c: "chain n sts up_to (?d, or_not_null m (f d), f d # ys) = (d', m', ys')"
          by (cases "chain n sts up_to (?d, or_not_null m (f d), f d # ys)")
        from Suc.IH [where d = ?d and m = "or_not_null m (f d)" and ys = "f d # ys"] c
        obtain zs where zs: "ys' = zs @ f d # ys"
          "wasModified m' \<longleftrightarrow> wasModified (or_not_null m (f d)) \<or> (\<exists>y\<in>set zs. y \<noteq> Null)"
          "(\<forall>y\<in>set zs. y = Null \<or> y = Undefined) \<longrightarrow>
             content d' = content ?d \<and> doc_key d' = doc_key ?d"
          by auto
        have "ys' = (zs @ [f d]) @ ys" using zs(1) by simp
        moreover have "wasModified m' \<longleftrightarrow> wasModified m \<or> (\<exists>y\<in>set (zs @ [f d]). y \<noteq> Null)"
          using zs(2) by (auto simp: wasModified_or_not_null)
        moreover have "(\<forall>y\<in>set (zs @ [f d]). y = Null \<or> y = Undefined) \<longrightarrow>
             content d' = content d \<and> doc_key d' = doc_key d"
          using zs(3) by (auto simp: or_doc_def)
        ultimately have "\<exists>zs. ys' = zs @ ys \<and>
          (wasModified m' \<longleftrightarrow> wasModified m \<or> (\<exists>y\<in>set zs. y \<noteq> Null)) \<and>
          ((\<forall>y\<in>set zs. y = Null \<or> y = Undefined) \<longrightarrow>
             content d' = content d \<and> doc_key d' = doc_key d)"
          by blast
        with lt at Some c show ?thesis by simp
      qed
    qed
  qed
qed

text \<open>A chain that ends by invoking the callback does so at one of its calls.\<close>

lemma chain_final:
  assumes run: "migrateDocument sts d up_to m = Some r"
  shows "\<forall>R m' ys. r = Inr (R, m') \<longrightarrow> (\<exists>n ys'. chain n sts up_to (d, m, ys) = (R, m', ys'))"
proof (rule migrateDocument.raw_induct
    [where P = "\<lambda>sts d up_to m r. \<forall>R m' ys. r = Inr (R, m') \<longrightarrow>
        (\<exists>n ys'. chain n sts up_to (d, m, ys) = (R, m', ys'))", OF _ run])
  fix g :: "'a step list \<Rightarrow> 'a doc \<Rightarrow> int \<Rightarrow> bool option \<Rightarrow> (exn + 'a doc \<times> bool option) option"
  fix sts d up_to m r
  assume IH: "\<And>sts d up_to m y. g sts d up_to m = Some y \<Longrightarrow>
                \<forall>R m' ys. y = Inr (R, m') \<longrightarrow>
                  (\<exists>n ys'. chain n sts up_to (d, m, ys) = (R, m', ys'))"
    and body: "(if version_of d < up_to
      then case step_at sts (version_of d) of None \<Rightarrow> Some (Inl TypeError)
           | Some migration \<Rightarrow>
               (case up migration of None \<Rightarrow> Some (Inr (d, m))
               | Some f \<Rightarrow>
                   g sts
                    ((or_doc (f d) d)\<lparr>migration_version := Some (step_id migration)\<rparr>)
                    up_to (or_not_null m (f d)))
      else Some (Inr (d, m))) = Some r"
  show "\<forall>R m' ys. r = Inr (R, m') \<longrightarrow> (\<exists>n ys'. chain n sts up_to (d, m, ys) = (R, m', ys'))"
  proof (intro allI impI)
    fix R m' ys
    assume r: "r = Inr (R, m')"
    have stop: "(R, m') = (d, m) \<Longrightarrow> \<exists>n ys'. chain n sts up_to (d, m, ys) = (R, m', ys')"
      by (rule exI [of _ 0]) simp
    show "\<exists>n ys'. chain n sts up_to (d, m, ys) = (R, m', ys')"
    proof (cases "version_of d < up_to")
      case False
      with body r stop show ?thesis by simp
    next
      case lt: True
      show ?thesis
      proof (cases "step_at sts (version_of d)")
        case None
        with body r lt show ?thesis by simp
      next
        case at: (Some s)
        show ?thesis
        proof (cases "up s")
          case None
          with body r lt at stop show ?thesis by simp
        next
          case (Some f)
          let ?d = "(or_doc (f d) d)\<lparr>migration_version := Some (step_id s)\<rparr>"
          from body lt at Some
          have "g sts ?d up_to (or_not_null m (f d)) = Some r" by simp
          from IH [OF this] r obtain n ys' where
            "chain n sts up_to (?d, or_not_null m (f d), f d # ys) = (R, m', ys')"
            by blast
          with lt at Some have "chain (Suc n) sts up_to (d, m, ys) = (R, m', ys')"
            by simp
          then show ?thesis by blast
        qed
      qed
    qed
  qed
qed

text \<open>The flag of the result, when there is one, from the replies of the chain.\<close>

lemma migrate_result_flag:
  assumes "migrateDocument sts d up_to m = Some (Inr (R, mR))"
  shows "\<exists>n zs. chain n sts up_to (d, m, ys) = (R, mR, zs @ ys) \<and>
           (wasModified mR \<longleftrightarrow> wasModified m \<or> (\<exists>y\<in>set zs. y \<noteq> Null)) \<and>
           ((\<forall>y\<in>set zs. y = Null \<or> y = Undefined) \<longrightarrow>
              content R = content d \<and> doc_key R = doc_key d)"
proof -
  from chain_final [OF assms] obtain n ys' where c: "chain n sts up_to (d, m, ys) = (R, mR, ys')"
    by blast
  with chain_flag [where n = n and sts = sts and up_to = up_to and d = d and m = m and ys = ys] show ?thesis
    by auto
qed

text \<open>
  C8. A document whose version has reached the target comes back as it is, with a flag
  that reads false: the guard \<^verbatim>\<open>version < up_to\<close> fails before the step is looked at.
\<close>

theorem migrate_at_or_above_target:
  "up_to \<le> version_of d \<Longrightarrow>
   migrateDocument sts d up_to None = Some (Inr (d, None)) \<and> wasModified None = False"
  by (simp add: migrate_above wasModified_def)

theorem migrate_at_or_above_target_witness:
  "(2::int) \<le> version_of docA2 \<and>
   migrateDocument stepsA docA2 2 None = Some (Inr (docA2, None)) \<and> wasModified None = False"
proof -
  have h: "(2::int) \<le> version_of docA2"
    by (simp add: docA2_def version_of_def)
  from migrate_at_or_above_target [OF h, of stepsA] h show ?thesis
    by simp
qed

text \<open>
  C9. When \<open>migrateDocument\<close> hands back a document, running it again on that document
  with the same target hands back the same document at once.
\<close>

theorem migrate_idempotent:
  assumes "migrateDocument sts d up_to None = Some (Inr (R, m))"
  shows "migrateDocument sts R up_to None = Some (Inr (R, None))"
proof -
  from migrate_result_terminal [OF assms]
  have "up_to \<le> version_of R \<or> (\<exists>s. step_at sts (version_of R) = Some s \<and> up s = None)"
    by blast
  then show ?thesis
    using migrate_above migrate_no_up by blast
qed

theorem migrate_idempotent_witness:
  "migrateDocument stepsA docA 2 None = Some (Inr (docA2, Some True)) \<and>
   migrateDocument stepsA docA2 2 None = Some (Inr (docA2, None))"
proof -
  have h: "migrateDocument stepsA docA 2 None = Some (Inr (docA2, Some True))"
    by (simp add: migrateDocument.simps scenario_defs js_ops)
  from migrate_idempotent [OF h] h show ?thesis
    by simp
qed

text \<open>
  C7 (amended). A step that yields null passes the document on with only the version
  marker set to the step's id, and the chain goes on. At every call inside the chain,
  and in the result when the chain ends, the flag reads true exactly when one of the
  replies so far is something other than null: a replacement, or no argument at all.
  A flag that reads true at a call reads true at every later call and in the result.
\<close>

theorem migrate_null_step_and_flag:
  "(version_of d < up_to \<and> step_at sts (version_of d) = Some s \<and> up s = Some f \<and> f d = Null \<longrightarrow>
      migrateDocument sts d up_to m =
        migrateDocument sts (d\<lparr>migration_version := Some (step_id s)\<rparr>) up_to (or_not_null m (f d))
      \<and> wasModified (or_not_null m (f d)) = wasModified m)
   \<and> (case chain n sts up_to (d, None, []) of
         (d', m', ys) \<Rightarrow>
           migrateDocument sts d up_to None = migrateDocument sts d' up_to m' \<and>
           (wasModified m' \<longleftrightarrow> (\<exists>y\<in>set ys. y \<noteq> Null)))
   \<and> (migrateDocument sts d up_to None = Some (Inr (R, mR)) \<longrightarrow>
        (\<exists>k ys. chain k sts up_to (d, None, []) = (R, mR, ys) \<and>
                (wasModified mR \<longleftrightarrow> (\<exists>y\<in>set ys. y \<noteq> Null))))
   \<and> (wasModified m \<longrightarrow>
        (case chain n sts up_to (d, m, zs) of (d', m', ys) \<Rightarrow> wasModified m') \<and>
        (\<forall>R' mR'. migrateDocument sts d up_to m = Some (Inr (R', mR')) \<longrightarrow> wasModified mR'))"
proof (intro conjI impI)
  assume a: "version_of d < up_to \<and> step_at sts (version_of d) = Some s \<and> up s = Some f \<and> f d = Null"
  then show "migrateDocument sts d up_to m =
        migrateDocument sts (d\<lparr>migration_version := Some (step_id s)\<rparr>) up_to (or_not_null m (f d))"
    using migrate_apply [of d up_to sts s f m] by (simp add: or_doc_def)
  from a show "wasModified (or_not_null m (f d)) = wasModified m"
    by (simp add: wasModified_or_not_null)
next
  show "case chain n sts up_to (d, None, []) of
         (d', m', ys) \<Rightarrow>
           migrateDocument sts d up_to None = migrateDocument sts d' up_to m' \<and>
           (wasModified m' \<longleftrightarrow> (\<exists>y\<in>set ys. y \<noteq> Null))"
    using chain_link [where sts = sts and d = d and up_to = up_to and m = None and n = n and ys = "[]"]
      chain_flag [where n = n and sts = sts and up_to = up_to and d = d and m = None and ys = "[]"]
    by (auto simp: wasModified_def split: prod.splits)
next
  assume "migrateDocument sts d up_to None = Some (Inr (R, mR))"
  from migrate_result_flag [OF this, of "[]"]
  show "\<exists>k ys. chain k sts up_to (d, None, []) = (R, mR, ys) \<and>
                (wasModified mR \<longleftrightarrow> (\<exists>y\<in>set ys. y \<noteq> Null))"
    by (auto simp: wasModified_def)
next
  assume m: "wasModified m"
  then show "case chain n sts up_to (d, m, zs) of (d', m', ys) \<Rightarrow> wasModified m'"
    using chain_flag [where n = n and sts = sts and up_to = up_to and d = d and m = m and ys = zs] by (auto split: prod.splits)
  show "\<forall>R' mR'. migrateDocument sts d up_to m = Some (Inr (R', mR')) \<longrightarrow> wasModified mR'"
  proof (intro allI impI)
    fix R' mR'
    assume "migrateDocument sts d up_to m = Some (Inr (R', mR'))"
    from migrate_result_flag [OF this, of "[]"] m show "wasModified mR'"
      by auto
  qed
qed

theorem migrate_null_step_and_flag_witness:
  "migrateDocument stepsA docA1 2 (Some True) = migrateDocument stepsA docA2 2 (Some True)
   \<and> chain (Suc 0) stepsA 2 (docA, None, []) =
       (docA1, Some True, [Replacement (docA\<lparr>content := [(''x'', 1)]\<rparr>)])
   \<and> migrateDocument stepsA docA 2 None = migrateDocument stepsA docA1 2 (Some True)
   \<and> migrateDocument stepsA docA 2 None = Some (Inr (docA2, Some True))
   \<and> chain (Suc (Suc 0)) stepsA 2 (docA, None, []) =
       (docA2, Some True, [Null, Replacement (docA\<lparr>content := [(''x'', 1)]\<rparr>)])
   \<and> migrateDocument stepsA docA1 2 None = Some (Inr (docA2, Some False))
   \<and> chain (Suc 0) stepsA 2 (docA1, Some True, []) = (docA2, Some True, [Null])"
proof -
  have h1: "version_of docA1 < 2 \<and>
      step_at stepsA (version_of docA1) = Some \<lparr>step_id = 2, up = Some (\<lambda>d. Null)\<rparr> \<and>
      up \<lparr>step_id = 2, up = Some (\<lambda>d. Null)\<rparr> = Some (\<lambda>d. Null) \<and>
      (\<lambda>d. Null) docA1 = (Null :: fields reply)"
    by (simp add: scenario_defs js_ops)
  have c1: "chain (Suc 0) stepsA 2 (docA, None, []) =
       (docA1, Some True, [Replacement (docA\<lparr>content := [(''x'', 1)]\<rparr>)])"
    by (simp add: scenario_defs js_ops)
  have c2: "chain (Suc (Suc 0)) stepsA 2 (docA, None, []) =
       (docA2, Some True, [Null, Replacement (docA\<lparr>content := [(''x'', 1)]\<rparr>)])"
    by (simp add: scenario_defs js_ops)
  have c3: "chain (Suc 0) stepsA 2 (docA1, Some True, []) = (docA2, Some True, [Null])"
    by (simp add: scenario_defs js_ops)
  have h2: "migrateDocument stepsA docA 2 None = Some (Inr (docA2, Some True))"
    by (simp add: migrateDocument.simps scenario_defs js_ops)
  have h3: "migrateDocument stepsA docA1 2 None = Some (Inr (docA2, Some False))"
    by (simp add: migrateDocument.simps scenario_defs js_ops)
  have t: "wasModified (Some True)"
    by (simp add: wasModified_def)
  from migrate_null_step_and_flag
    [of docA1 2 stepsA "\<lparr>step_id = 2, up = Some (\<lambda>d. Null)\<rparr>" "\<lambda>d. Null" "Some True"
        "Suc 0" docA2 "Some False" "[]"]
    migrate_null_step_and_flag
    [of docA 2 stepsA "\<lparr>step_id = 2, up = Some (\<lambda>d. Null)\<rparr>" "\<lambda>d. Null" "Some True"
        "Suc 0" docA2 "Some True" "[]"]
    h1 h2 h3 c1 c2 c3 t
  show ?thesis
    by (simp add: scenario_defs js_ops)
qed

text \<open>
  C7 as stated fails on a step that calls its continuation with no argument: the chain
  of one such step hands back a flag that is true, and no step has yielded a replacement.
\<close>

theorem undefined_reply_sets_flag:
  "migrateDocument stepsU docU 1 None =
     Some (Inr (docU\<lparr>migration_version := Some 1\<rparr>, Some True)) \<and>
   chain (Suc 0) stepsU 1 (docU, None, []) =
     (docU\<lparr>migration_version := Some 1\<rparr>, Some True, [Undefined]) \<and>
   wasModified (Some True)"
  by (simp add: migrateDocument.simps scenario_defs js_ops)

text \<open>
  C10 (amended). A step that calls its continuation with no argument passes the document
  on with only the version marker set, and the flag reads true at every later call of
  the chain. When the chain ends by handing a document to the callback, the row is
  written back and counted, and a row whose chain holds such a reply is counted into
  \<^verbatim>\<open>progress.written\<close>, also when no reply of the chain was a replacement, so that key
  and content are those of the row.
\<close>

theorem undefined_reply_counts_as_written:
  "(version_of d < up_to \<and> step_at sts (version_of d) = Some s \<and> up s = Some f \<and>
      f d = Undefined \<longrightarrow>
      migrateDocument sts d up_to m =
        migrateDocument sts (d\<lparr>migration_version := Some (step_id s)\<rparr>) up_to (Some True) \<and>
      (case chain n sts up_to (d\<lparr>migration_version := Some (step_id s)\<rparr>, Some True, ys) of
         (d', m', ys') \<Rightarrow> wasModified m'))
   \<and> (migrateDocument (steps (migrations w)) row up_to None = Some (Inr (R, mR)) \<longrightarrow>
        treatRow up_to row w = Some (Inr (rowDone mR (w\<lparr>db := db_insert (db w) R\<rparr>))) \<and>
        (\<exists>k zs. chain k (steps (migrations w)) up_to (row, None, []) = (R, mR, zs) \<and>
           (Undefined \<in> set zs \<longrightarrow>
              wasModified mR \<and>
              written_n (progress (rowDone mR (w\<lparr>db := db_insert (db w) R\<rparr>))) =
                written_n (progress w) + 1) \<and>
           ((\<forall>y\<in>set zs. y = Null \<or> y = Undefined) \<longrightarrow>
              content R = content row \<and> doc_key R = doc_key row)))"
proof (intro conjI impI)
  assume a: "version_of d < up_to \<and> step_at sts (version_of d) = Some s \<and> up s = Some f \<and>
      f d = Undefined"
  have "or_not_null m (f d) = Some True"
    using a by (cases m) (auto simp: or_not_null_def wasModified_def)
  with a show "migrateDocument sts d up_to m =
        migrateDocument sts (d\<lparr>migration_version := Some (step_id s)\<rparr>) up_to (Some True)"
    using migrate_apply [of d up_to sts s f m] by (simp add: or_doc_def)
  show "case chain n sts up_to (d\<lparr>migration_version := Some (step_id s)\<rparr>, Some True, ys) of
         (d', m', ys') \<Rightarrow> wasModified m'"
    using chain_flag [where n = n and sts = sts and up_to = up_to
        and d = "d\<lparr>migration_version := Some (step_id s)\<rparr>" and m = "Some True" and ys = ys]
    by (auto simp: wasModified_def split: prod.splits)
next
  assume b: "migrateDocument (steps (migrations w)) row up_to None = Some (Inr (R, mR))"
  then show "treatRow up_to row w = Some (Inr (rowDone mR (w\<lparr>db := db_insert (db w) R\<rparr>)))"
    by (simp add: treatRow_def)
  from migrate_result_flag [OF b, of "[]"]
  obtain k zs where zs: "chain k (steps (migrations w)) up_to (row, None, []) = (R, mR, zs)"
    "wasModified mR \<longleftrightarrow> wasModified None \<or> (\<exists>y\<in>set zs. y \<noteq> Null)"
    "(\<forall>y\<in>set zs. y = Null \<or> y = Undefined) \<longrightarrow> content R = content row \<and> doc_key R = doc_key row"
    by auto
  have "Undefined \<in> set zs \<longrightarrow>
      wasModified mR \<and>
      written_n (progress (rowDone mR (w\<lparr>db := db_insert (db w) R\<rparr>))) = written_n (progress w) + 1"
    using zs(2) by (auto simp: rowDone_def Let_def)
  with zs(1) zs(3)
  show "\<exists>k zs. chain k (steps (migrations w)) up_to (row, None, []) = (R, mR, zs) \<and>
           (Undefined \<in> set zs \<longrightarrow>
              wasModified mR \<and>
              written_n (progress (rowDone mR (w\<lparr>db := db_insert (db w) R\<rparr>))) =
                written_n (progress w) + 1) \<and>
           ((\<forall>y\<in>set zs. y = Null \<or> y = Undefined) \<longrightarrow>
              content R = content row \<and> doc_key R = doc_key row)"
    by blast
qed

theorem undefined_reply_counts_as_written_witness:
  "migrateDocument stepsU docU 1 None = Some (Inr (docU\<lparr>migration_version := Some 1\<rparr>, Some True))
   \<and> chain (Suc 0) stepsU 1 (docU, None, []) =
       (docU\<lparr>migration_version := Some 1\<rparr>, Some True, [Undefined])
   \<and> written_n (progress worldU) = 0
   \<and> (\<exists>w'. treatRow 1 docU worldU = Some (Inr w') \<and> written_n (progress w') = 1 \<and>
          docs (db w') = [docU\<lparr>migration_version := Some 1\<rparr>])"
proof -
  have h1: "version_of docU < 1 \<and> step_at stepsU (version_of docU) = Some \<lparr>step_id = 1, up = Some (\<lambda>d. Undefined)\<rparr>
      \<and> up \<lparr>step_id = 1, up = Some (\<lambda>d. Undefined)\<rparr> = Some (\<lambda>d. Undefined)
      \<and> (\<lambda>d. Undefined) docU = (Undefined :: fields reply)"
    by (simp add: scenario_defs js_ops)
  have s: "steps (migrations worldU) = stepsU"
    by (simp add: worldU_def initial_def)
  have h2: "migrateDocument stepsU docU 1 None = Some (Inr (docU\<lparr>migration_version := Some 1\<rparr>, Some True))"
    by (simp add: migrateDocument.simps scenario_defs js_ops)
  have h3: "chain (Suc 0) stepsU 1 (docU, None, []) =
       (docU\<lparr>migration_version := Some 1\<rparr>, Some True, [Undefined])"
    by (simp add: scenario_defs js_ops)
  have h4: "written_n (progress worldU) = 0"
    by (simp add: worldU_def initial_def)
  have h5: "docs (db (rowDone (Some True) (worldU\<lparr>db := db_insert (db worldU) (docU\<lparr>migration_version := Some 1\<rparr>)\<rparr>)))
      = [docU\<lparr>migration_version := Some 1\<rparr>]"
    by (simp add: rowDone_def Let_def db_insert_def worldU_def initial_def docU_def)
  from undefined_reply_counts_as_written
    [of docU 1 stepsU "\<lparr>step_id = 1, up = Some (\<lambda>d. Undefined)\<rparr>" "\<lambda>d. Undefined" None
        0 "[]" worldU docU "docU\<lparr>migration_version := Some 1\<rparr>" "Some True"]
    h1 h2 h3 h4 h5 s
  show ?thesis
    by (auto simp: wasModified_def rowDone_def Let_def)
qed

text \<open>
  C10 as stated fails when the chain does not reach the callback. With the single step
  of \<open>stepsU\<close> and the target 5, the step replies with no argument and sets the version
  to 1; \<^verbatim>\<open>migrations.steps[1]\<close> is \<^verbatim>\<open>undefined\<close>, the next call throws, and the row is not
  counted.
\<close>

theorem undefined_reply_then_throw_not_counted:
  "chain (Suc 0) stepsU 5 (docU, None, []) =
     (docU\<lparr>migration_version := Some 1\<rparr>, Some True, [Undefined]) \<and>
   migrateDocument stepsU docU 5 None = Some (Inl TypeError) \<and>
   treatRow 5 docU worldU = Some (Inl (TypeError, worldU)) \<and>
   written_n (progress worldU) = 0 \<and>
   executeMigrations (pushing []) (Suc 0) (Some 5) worldU =
     Thrown TypeError (world_of (executeMigrations (pushing []) (Suc 0) (Some 5) worldU)) \<and>
   written_n (progress (world_of (executeMigrations (pushing []) (Suc 0) (Some 5) worldU))) = 0"
  by (simp add: run_defs world_defs migrateDocument.simps scenario_defs js_ops)

text \<open>
  A step whose id is its own position is applied again and again: the chain never hands
  the document to the callback, and the row is never counted.
\<close>

lemma looping_chain_never_ends:
  "version_of d = 0 \<Longrightarrow> migrateDocument stepsL d 1 m = None"
proof (rule ccontr)
  assume v: "version_of d = 0" and "migrateDocument stepsL d 1 m \<noteq> None"
  then obtain r where run: "migrateDocument stepsL d 1 m = Some r" by auto
  have "stepsL = stepsL \<and> (1::int) = 1 \<and> version_of d = 0 \<longrightarrow> False"
  proof (rule migrateDocument.raw_induct
      [where P = "\<lambda>sts d up_to m r. sts = stepsL \<and> up_to = 1 \<and> version_of d = 0 \<longrightarrow> False",
       OF _ run])
    fix g :: "fields step list \<Rightarrow> fields doc \<Rightarrow> int \<Rightarrow> bool option \<Rightarrow> (exn + fields doc \<times> bool option) option"
    fix sts d up_to m r
    assume IH: "\<And>sts d up_to m y. g sts d up_to m = Some y \<Longrightarrow>
                  sts = stepsL \<and> up_to = 1 \<and> version_of d = 0 \<longrightarrow> False"
      and body: "(if version_of d < up_to
        then case step_at sts (version_of d) of None \<Rightarrow> Some (Inl TypeError)
             | Some migration \<Rightarrow>
                 (case up migration of None \<Rightarrow> Some (Inr (d, m))
                 | Some f \<Rightarrow>
                     g sts
                      ((or_doc (f d) d)\<lparr>migration_version := Some (step_id migration)\<rparr>)
                      up_to (or_not_null m (f d)))
        else Some (Inr (d, m))) = Some r"
    show "sts = stepsL \<and> up_to = 1 \<and> version_of d = 0 \<longrightarrow> False"
    proof
      assume a: "sts = stepsL \<and> up_to = 1 \<and> version_of d = 0"
      with body have "g stepsL (d\<lparr>migration_version := Some 0\<rparr>) 1 (or_not_null m (Undefined :: fields reply)) = Some r"
        by (simp add: stepsL_def step_at_def or_doc_def)
      from IH [OF this] show False
        by (simp add: version_of_def)
    qed
  qed
  with v show False by simp
qed

lemma looping_chain_never_counted:
  "chain (Suc 0) stepsL 1 (docA, None, []) = (docA, Some True, [Undefined]) \<and>
   treatRow 1 docA (worldU\<lparr>migrations := \<lparr>last_version = Some 1, loaded = False, steps = stepsL\<rparr>\<rparr>) = None"
proof -
  have "version_of docA = 0" by (simp add: docA_def version_of_def)
  from looping_chain_never_ends [OF this]
  show ?thesis
    by (simp add: treatRow_def stepsL_def docA_def js_ops)
qed

text \<open>
  C1. Scenario C of the spec with the two steps of scenario A loaded: the document is at
  version 5 and the target is 10. \<^verbatim>\<open>migrations.steps[5]\<close> is \<^verbatim>\<open>undefined\<close>, and reading
  its \<^verbatim>\<open>up\<close> throws a TypeError; the callback is not invoked.
\<close>

theorem migrate_unregistered_step_throws:
  "migrateDocument stepsA doc5 10 None = Some (Inl TypeError)"
  by (simp add: migrateDocument.simps scenario_defs js_ops)

section \<open>Loading the steps and choosing the target\<close>

text \<open>
  Nothing past the loader touches \<^verbatim>\<open>migrations\<close> or runs the loader, and
  \<^verbatim>\<open>treatDocuments\<close> logs nothing.
\<close>

lemma treatRow_frame:
  "treatRow T r w = Some res \<Longrightarrow>
   (case res of Inl (e, w') \<Rightarrow> same_registry w' w | Inr w' \<Rightarrow> same_registry w' w)"
  by (auto simp: treatRow_def rowDone_def Let_def same_registry_def split: option.splits sum.splits)

lemma treatRows_frame:
  "(case treatRows T rows w of Inl (e, w') \<Rightarrow> same_registry w' w
    | Inr (b, w') \<Rightarrow> same_registry w' w)"
proof (induction rows arbitrary: w)
  case Nil
  then show ?case by (simp add: same_registry_def)
next
  case (Cons row rows)
  show ?case
  proof (cases "treatRow T row w")
    case None
    with Cons.IH [of w] show ?thesis
      by (auto split: sum.splits)
  next
    case (Some r)
    show ?thesis
    proof (cases r)
      case (Inl ew)
      with treatRow_frame [OF Some] Some show ?thesis
        by (auto split: prod.splits)
    next
      case (Inr w1)
      with treatRow_frame [OF Some] Some Cons.IH [of w1] show ?thesis
        by (auto simp: same_registry_def split: sum.splits)
    qed
  qed
qed

lemma treatDocuments_frame:
  "same_registry (world_of (treatDocuments env n T limit w)) w"
proof (induction n arbitrary: w)
  case 0
  then show ?case by (simp add: same_registry_def)
next
  case (Suc n)
  obtain res s where v: "db_view (db w) (T - 1) (Some limit) = (res, s)"
    by (cases "db_view (db w) (T - 1) (Some limit)")
  show ?case
  proof (cases res)
    case (Inl err)
    with v show ?thesis by (simp add: same_registry_def)
  next
    case (Inr rows)
    from treatRows_frame [where T = T and rows = "completion_order env rows" and w = "w\<lparr>db := s\<rparr>"]
      Suc.IH [of "snd (projr (treatRows T (completion_order env rows) (w\<lparr>db := s\<rparr>)))"]
    show ?thesis
      using v Inr by (auto simp: same_registry_def split: sum.splits)
  qed
qed

text \<open>
  \<^verbatim>\<open>executeMigrations\<close> leaves \<^verbatim>\<open>migrations\<close> alone as well, and when \<^verbatim>\<open>migrations.last\<close> is
  set it announces the run to \<^verbatim>\<open>up_to || migrations.last\<close>.
\<close>

lemma executeMigrations_frame:
  "migrations (world_of (executeMigrations env n t w)) = migrations w \<and>
   loads (world_of (executeMigrations env n t w)) = loads w \<and>
   (\<forall>l. last_version (migrations w) = Some l \<longrightarrow>
      (\<exists>rest. logged (world_of (executeMigrations env n t w)) =
         rest @ Executing (or_last t l) # logged w))"
proof (cases "last_version (migrations w)")
  case None
  then show ?thesis by (simp add: executeMigrations_def)
next
  case (Some l)
  let ?T = "or_last t l"
  obtain res s where v: "db_view (db w) (?T - 1) None = (res, s)"
    by (cases "db_view (db w) (?T - 1) None")
  show ?thesis
  proof (cases res)
    case (Inl err)
    with Some v show ?thesis by (simp add: executeMigrations_def Let_def)
  next
    case (Inr rows)
    let ?w = "setInterval (w\<lparr>logged := Executing ?T # logged w, db := s,
                              progress := (progress w)\<lparr>total_n := length rows\<rparr>\<rparr>)"
    from treatDocuments_frame [where env = env and n = n and T = ?T and limit = 512 and w = ?w]
    show ?thesis
      using Some v Inr
      by (cases "treatDocuments env n ?T 512 ?w")
        (auto simp: executeMigrations_def Let_def setInterval_def clearInterval_def
          same_registry_def split: option.splits)
  qed
qed

text \<open>
  The flag \<^verbatim>\<open>loaded\<close> after a call is the one the loader left: no assignment in the
  module sets it. While it is false, every call runs the loader.
\<close>

lemma doMigrations_loads:
  assumes "\<not> loaded (migrations w)"
  shows "loads (world_of (doMigrations env n t w)) = loads w + 1"
    and "loaded (migrations (world_of (doMigrations env n t w))) =
           loaded (loader_migrations env (migrations w))"
  using assms executeMigrations_frame [of env n "or_null t"]
  by (auto simp: doMigrations_def loadFiles_def Let_def split: option.splits sum.splits)

text \<open>
  C3. Two calls of \<^verbatim>\<open>doMigrations\<close> in a row on a fresh instance, the second after the
  first has called back: the flag \<^verbatim>\<open>loaded\<close> is still false after the first call, and the
  loader has run once after the first call and twice after the second.
\<close>

theorem every_call_loads_again:
  "doMigrations (pushing stepsA) (Suc 0) None (initial emptyStore) =
     Called None (world_of (doMigrations (pushing stepsA) (Suc 0) None (initial emptyStore))) \<and>
   loaded (migrations (world_of (doMigrations (pushing stepsA) (Suc 0) None (initial emptyStore)))) = False \<and>
   loads (world_of (doMigrations (pushing stepsA) (Suc 0) None (initial emptyStore))) = 1 \<and>
   loads (world_of (doMigrations (pushing stepsA) (Suc 0) None
            (world_of (doMigrations (pushing stepsA) (Suc 0) None (initial emptyStore))))) = 2"
  by (simp add: run_defs world_defs scenario_defs js_ops)

text \<open>
  \<^verbatim>\<open>loadFiles\<close> leaves the steps in the order in which the loader left them, and
  \<^verbatim>\<open>migrations.last\<close> is the id of the element at the end of the array, or \<^verbatim>\<open>null\<close> when
  that id is 0.
\<close>

lemma step_at_end: "xs \<noteq> [] \<Longrightarrow> step_at xs (int (length xs) - 1) = Some (last xs)"
proof -
  assume ne: "xs \<noteq> []"
  have "nat (int (length xs) - 1) = length xs - 1"
    by simp
  with ne show ?thesis
    by (simp add: step_at_def last_conv_nth)
qed

lemma loadFiles_last:
  assumes "loadFiles env w = Inr w'"
  shows "steps (migrations w') = steps (loader_migrations env (migrations w))"
    and "last_version (migrations w') = or_null (Some (step_id (last (steps (migrations w')))))"
proof -
  let ?xs = "steps (loader_migrations env (migrations w))"
  from assms have ne: "?xs \<noteq> []"
    by (auto simp: loadFiles_def Let_def js_sort_keeps_order step_at_def split: option.splits if_splits)
  from assms step_at_end [OF ne]
  show "steps (migrations w') = ?xs"
    and "last_version (migrations w') = or_null (Some (step_id (last (steps (migrations w')))))"
    by (auto simp: loadFiles_def Let_def js_sort_keeps_order)
qed

text \<open>
  C4. Two step files that push the descriptor with id 2 before the one with id 1:
  after \<^verbatim>\<open>loadFiles\<close> the steps are still in that order, and \<^verbatim>\<open>migrations.last\<close> is 1, the
  id of the element at the end, while the highest id is 2.
\<close>

theorem load_keeps_arrival_order:
  "(case loadFiles (pushing steps21) (initial emptyStore) of
      Inl ew \<Rightarrow> False
    | Inr w \<Rightarrow> map step_id (steps (migrations w)) = [2, 1] \<and> last_version (migrations w) = Some 1)"
  by (simp add: run_defs world_defs js_ops)

text \<open>
  The target of a run, from the argument of \<^verbatim>\<open>doMigrations\<close> and \<^verbatim>\<open>migrations.last\<close>: a
  number other than 0 is the target, and \<^verbatim>\<open>null\<close>, \<^verbatim>\<open>undefined\<close> and 0 give
  \<^verbatim>\<open>migrations.last\<close>.
\<close>

lemma effective_target:
  "or_last (or_null up_to) l = (case up_to of None \<Rightarrow> l | Some t \<Rightarrow> if t = 0 then l else t)"
  by (simp add: or_last_def or_null_def split: option.splits)

lemma doMigrations_announces:
  assumes "(if loaded (migrations w) then Inr w else loadFiles env w) = Inr w'"
    and "last_version (migrations w') = Some l"
  shows "\<exists>rest. logged (world_of (doMigrations env n up_to w)) =
           rest @ Executing (case up_to of None \<Rightarrow> l | Some t \<Rightarrow> if t = 0 then l else t) # logged w"
proof -
  from assms(1) have "logged w' = logged w"
    by (auto simp: loadFiles_def Let_def split: if_splits option.splits)
  moreover from assms(1)
  have "doMigrations env n up_to w = executeMigrations env n (or_null up_to) w'"
    by (auto simp: doMigrations_def split: if_splits)
  ultimately show ?thesis
    using assms(2) executeMigrations_frame [of env n "or_null up_to" w']
    by (simp add: effective_target)
qed

text \<open>
  C5. \<^verbatim>\<open>doMigrations(0, callback)\<close> on an instance whose highest step id is 7: the run is
  announced, and made, to version 7; the number 0 is taken for a missing argument.
\<close>

theorem zero_target_runs_to_last:
  "logged (world_of (doMigrations (pushing steps7) (Suc 0) (Some 0) (initial emptyStore)))
     = [Finished 0 0, Executing 7]"
  by (simp add: run_defs world_defs js_ops)

section \<open>The batch run\<close>

text \<open>
  A page query that fails makes \<^verbatim>\<open>treatDocuments\<close> call back with the error.
\<close>

lemma first_page_failure_reaches_callback:
  "db_view (db w) (up_to - 1) (Some limit) = (Inl err, s) \<Longrightarrow>
   treatDocuments env (Suc n) up_to limit w =
     Called (Some (Error (''Unable to retrive data: '' @ err))) (w\<lparr>db := s\<rparr>)"
  by simp

text \<open>
  C2. Scenario E of the spec: the count query succeeds and the query of the first page
  fails. The callback that \<^verbatim>\<open>executeMigrations\<close> gives to \<^verbatim>\<open>treatDocuments\<close> takes no
  argument: it logs the summary, clears the timer and calls the callback of the run
  with nothing. The counters are still 0 and no timer runs, but the run reports success.
\<close>

theorem first_page_failure_not_reported:
  "(case doMigrations (pushing stepsA) (Suc 0) None (initial storeE) of
      Called err w \<Rightarrow>
        err = None \<and> logged w = [Finished 0 0, Executing 2] \<and>
        done_n (progress w) = 0 \<and> written_n (progress w) = 0 \<and> timers w = []
    | Thrown e w \<Rightarrow> False
    | Hung w \<Rightarrow> False
    | Unfinished w \<Rightarrow> False)"
  by (simp add: run_defs world_defs scenario_defs js_ops)

subsection \<open>written does not exceed done\<close>

lemma rowDone_simps [simp]:
  "progress (rowDone m w) =
     (progress w)\<lparr>done_n := done_n (progress w) + 1,
                   written_n := written_n (progress w) + (if wasModified m then 1 else 0)\<rparr>"
  "observed (rowDone m w) = progress (rowDone m w) # observed w"
  "db (rowDone m w) = db w"
  "migrations (rowDone m w) = migrations w"
  by (simp_all add: rowDone_def Let_def)




subsection \<open>done does not exceed total when every candidate leaves\<close>












lemma observed_clearInterval [simp]: "observed (clearInterval i w) = observed w"
  by (simp add: clearInterval_def split: option.splits)





text \<open>
  The counters are not reset when a run starts: a second run on the instance of the
  witness, where the first run has left no candidate, sets \<^verbatim>\<open>total\<close> to 0 and starts its
  timer with \<^verbatim>\<open>done\<close> still at 2.
\<close>

lemma second_run_keeps_counters:
  "done_n (hd (observed (world_of (executeMigrations (pushing []) (Suc (Suc 0)) None
      (world_of (executeMigrations (pushing []) (Suc (Suc 0)) None worldA)))))) = 2 \<and>
   total_n (hd (observed (world_of (executeMigrations (pushing []) (Suc (Suc 0)) None
      (world_of (executeMigrations (pushing []) (Suc (Suc 0)) None worldA)))))) = 0"
  by (simp add: run_defs world_defs migrateDocument.simps scenario_defs js_ops)

text \<open>
  An insert that fails is counted like one that persists: with the first two inserts
  failing, the two candidates of the witness are still in the store for the second
  page and are counted again, so that \<^verbatim>\<open>done\<close> is 4 and \<^verbatim>\<open>total\<close> is 2.
\<close>

lemma failed_insert_counted_again:
  "done_n (hd (observed (world_of (executeMigrations (pushing []) (Suc (Suc 0)) None worldF)))) = 4 \<and>
   total_n (hd (observed (world_of (executeMigrations (pushing []) (Suc (Suc 0)) None worldF)))) = 2"
  by (simp add: run_defs world_defs migrateDocument.simps scenario_defs js_ops)

end
